theory Spec2Isabelle
  imports Complex_Main
begin

unbundle bit_operations_syntax

section \<open>Spacetime hashing (lib\_sthash.js)\<close>

text \<open>
  The library quantifies a time interval and a latitude/longitude, populates an empty square
  of grid points around the quantified location, and hashes every combination of timestamp
  and grid point with a keyed hash.

  JavaScript numbers are IEEE doubles. The model computes with exact real numbers: it agrees
  with the doubles wherever the double arithmetic is exact (integer timestamps, integer
  steps and loop counters below \<open>2^53\<close>), and it is the exact-arithmetic reading of the
  code elsewhere. Loop counters of the square (\<open>spread_out\<close>, \<open>lng_i\<close>, \<open>lat_i\<close>)
  and \<open>latlng_precision\<close> are integers, as the source's comments say.

  A function whose loop may run forever returns an \<open>option\<close>: \<open>None\<close> stands for
  a call that does not return. The source has no \<open>throw\<close>, so there is no error value.
\<close>

subsection \<open>quantifyDuration\<close>

text \<open>
  The loop \<^verbatim>\<open>for(let t = begin; t <= end; t += step) ret.push(t)\<close>. It ends only when
  \<open>t\<close> passes \<open>end\<close>, which a step that is not positive never brings about.
\<close>

partial_function (option) quantifyDuration_loop ::
  "real \<Rightarrow> real \<Rightarrow> real \<Rightarrow> real list \<Rightarrow> real list option" where
  "quantifyDuration_loop t end step ret =
     (if t \<le> end then quantifyDuration_loop (t + step) end step (ret @ [t]) else Some ret)"

declare quantifyDuration_loop.simps [code]

text \<open>
  With \<open>step = 0\<close> the doubles leave the reals: \<open>begin_ / 0\<close> is an infinity or NaN,
  \<open>Math.floor\<close> keeps it, and the product with \<open>0\<close> is NaN in every case, so
  \<open>begin\<close> is NaN, the test \<open>t <= end\<close> is false at once and the empty array is
  returned. The model writes this case out.
\<close>

definition quantifyDuration :: "real \<Rightarrow> real \<Rightarrow> real \<Rightarrow> real list option" where
  "quantifyDuration begin' end' time_step_in_mins =
     (let step = time_step_in_mins * 60 in
      if step = 0 then Some []
      else
        let begin = of_int \<lfloor>begin' / step\<rfloor> * step;
            end = of_int \<lceil>end' / step\<rceil> * step
        in quantifyDuration_loop begin end step [])"

subsection \<open>quantifyLatLng\<close>

text \<open>
  Modelled from the spec: \<open>utils.shuffleFloat\<close> lives in \<open>utils.js\<close>, which is not among
  the sources. \<open>shuffleFloat f start\<close> stands for
  \<^verbatim>\<open>parseFloat(utils.shuffleFloat(f, start, start, '0'))\<close>, the only way the function
  is called, with \<open>start = latlng_precision - 1\<close>. The specification describes the result
  as the coordinate truncated (not rounded) at the decimal digit position \<open>latlng_precision\<close>,
  all digits beyond it zeroed: the digits of the magnitude at the positions up to \<open>start\<close>
  become \<open>0\<close> and the sign is kept.
\<close>

definition shuffleFloat :: "real \<Rightarrow> int \<Rightarrow> real" where
  "shuffleFloat f start =
     sgn f * (of_int \<lfloor>\<bar>f\<bar> / 10 powi (start + 1)\<rfloor> * 10 powi (start + 1))"

definition quantifyLatLng :: "real \<Rightarrow> real \<Rightarrow> int \<Rightarrow> real \<times> real \<times> real \<times> real" where
  "quantifyLatLng lat lng latlng_precision =
     (let lat_step = 10 powi latlng_precision;
          lng_step = 10 powi latlng_precision
      in (shuffleFloat lat (latlng_precision - 1),
          shuffleFloat lng (latlng_precision - 1),
          lat_step,
          lng_step))"

subsection \<open>The keyed hash of the js-sha256 library\<close>

text \<open>
  \<open>sha256.hmac(key, msg)\<close> belongs to the external library js-sha256: the hexadecimal
  HMAC-SHA256 of the UTF-8 bytes of its arguments. It is modelled by the algorithms of
  FIPS 180-4 and RFC 2104. A 32-bit word is a natural number below \<open>2^32\<close>, with the
  wrap-around of the addition written out; a byte is a natural number below \<open>256\<close>.
\<close>

definition add32 :: "nat \<Rightarrow> nat \<Rightarrow> nat" where
  "add32 x y = (x + y) mod 4294967296"

definition rotr :: "nat \<Rightarrow> nat \<Rightarrow> nat" where
  "rotr n x = drop_bit n x + push_bit (32 - n) (take_bit n x)"

definition Ch :: "nat \<Rightarrow> nat \<Rightarrow> nat \<Rightarrow> nat" where
  "Ch x y z = (x AND y) XOR ((4294967295 - x) AND z)"

definition Maj :: "nat \<Rightarrow> nat \<Rightarrow> nat \<Rightarrow> nat" where
  "Maj x y z = (x AND y) XOR (x AND z) XOR (y AND z)"

definition Sigma0 :: "nat \<Rightarrow> nat" where
  "Sigma0 x = rotr 2 x XOR rotr 13 x XOR rotr 22 x"

definition Sigma1 :: "nat \<Rightarrow> nat" where
  "Sigma1 x = rotr 6 x XOR rotr 11 x XOR rotr 25 x"

definition sigma0 :: "nat \<Rightarrow> nat" where
  "sigma0 x = rotr 7 x XOR rotr 18 x XOR drop_bit 3 x"

definition sigma1 :: "nat \<Rightarrow> nat" where
  "sigma1 x = rotr 17 x XOR rotr 19 x XOR drop_bit 10 x"

text \<open>
  The round constants (FIPS 180-4, section 4.2.2) and the initial hash value (section 5.3.3),
  in decimal.
\<close>

definition K256 :: "nat list" where
  "K256 = [
    1116352408, 1899447441, 3049323471, 3921009573, 961987163, 1508970993,
    2453635748, 2870763221, 3624381080, 310598401, 607225278, 1426881987,
    1925078388, 2162078206, 2614888103, 3248222580, 3835390401, 4022224774,
    264347078, 604807628, 770255983, 1249150122, 1555081692, 1996064986,
    2554220882, 2821834349, 2952996808, 3210313671, 3336571891, 3584528711,
    113926993, 338241895, 666307205, 773529912, 1294757372, 1396182291,
    1695183700, 1986661051, 2177026350, 2456956037, 2730485921, 2820302411,
    3259730800, 3345764771, 3516065817, 3600352804, 4094571909, 275423344,
    430227734, 506948616, 659060556, 883997877, 958139571, 1322822218,
    1537002063, 1747873779, 1955562222, 2024104815, 2227730452, 2361852424,
    2428436474, 2756734187, 3204031479, 3329325298]"

definition H256 :: "nat list" where
  "H256 = [1779033703, 3144134277, 1013904242, 2773480762,
           1359893119, 2600822924, 528734635, 1541459225]"

text \<open>
  The message schedule: the words \<open>W[0..15]\<close> are the block, and each further word is
  \<open>W[t] = \<sigma>1(W[t-2]) + W[t-7] + \<sigma>0(W[t-15]) + W[t-16]\<close>, computed from the window
  \<open>win\<close> of the sixteen words before it.
\<close>

definition next_w :: "nat list \<Rightarrow> nat" where
  "next_w win = add32 (add32 (add32 (sigma1 (win ! 14)) (win ! 9)) (sigma0 (win ! 1))) (win ! 0)"

fun schedule :: "nat \<Rightarrow> nat list \<Rightarrow> nat list" where
  "schedule n ws =
     (if n = 0 then ws
      else schedule (n - 1) (ws @ [next_w (drop (length ws - 16) ws)]))"

declare schedule.simps [simp del]

fun round_upd :: "nat list \<Rightarrow> nat \<Rightarrow> nat \<Rightarrow> nat list" where
  "round_upd [a, b, c, d, e, f, g, h] t1 t2 = [add32 t1 t2, a, b, c, add32 d t1, e, f, g]"
| "round_upd s t1 t2 = s"

fun round256 :: "nat list \<Rightarrow> nat \<times> nat \<Rightarrow> nat list" where
  "round256 [a, b, c, d, e, f, g, h] (k, w) =
     round_upd [a, b, c, d, e, f, g, h]
       (add32 (add32 (add32 (add32 h (Sigma1 e)) (Ch e f g)) k) w)
       (add32 (Sigma0 a) (Maj a b c))"
| "round256 s kw = s"

definition compress :: "nat list \<Rightarrow> nat list \<Rightarrow> nat list" where
  "compress hs blk = map2 add32 hs (foldl round256 hs (zip K256 (schedule 48 blk)))"

fun be_bytes :: "nat \<Rightarrow> nat \<Rightarrow> nat list" where
  "be_bytes n v = (if n = 0 then [] else be_bytes (n - 1) (v div 256) @ [v mod 256])"

declare be_bytes.simps [simp del]

fun be_words :: "nat list \<Rightarrow> nat list" where
  "be_words (a # b # c # d # r) = (((a * 256 + b) * 256 + c) * 256 + d) # be_words r"
| "be_words r = []"

fun blocks :: "nat list \<Rightarrow> nat list list" where
  "blocks [] = []"
| "blocks (w # ws) = take 16 (w # ws) # blocks (drop 16 (w # ws))"

definition pad :: "nat list \<Rightarrow> nat list" where
  "pad m = m @ [128] @ replicate ((55 + 64 - length m mod 64) mod 64) 0
             @ be_bytes 8 (8 * length m)"

definition sha256 :: "nat list \<Rightarrow> nat list" where
  "sha256 m = concat (map (be_bytes 4) (foldl compress H256 (blocks (be_words (pad m)))))"

definition zero_pad :: "nat \<Rightarrow> nat list \<Rightarrow> nat list" where
  "zero_pad n bs = bs @ replicate (n - length bs) 0"

definition hmac_padded :: "nat list \<Rightarrow> nat list \<Rightarrow> nat list" where
  "hmac_padded k msg = sha256 (map (\<lambda>b. b XOR 92) k @ sha256 (map (\<lambda>b. b XOR 54) k @ msg))"

definition hmac_sha256 :: "nat list \<Rightarrow> nat list \<Rightarrow> nat list" where
  "hmac_sha256 key msg =
     hmac_padded (zero_pad 64 (if 64 < length key then sha256 key else key)) msg"

definition hexdigit :: "nat \<Rightarrow> char" where
  "hexdigit n = ''0123456789abcdef'' ! n"

definition hex :: "nat list \<Rightarrow> string" where
  "hex bs = concat (map (\<lambda>b. [hexdigit (b div 16), hexdigit (b mod 16)]) bs)"

definition utf8 :: "string \<Rightarrow> nat list" where
  "utf8 s = map of_char s"

definition sha256_hmac :: "string \<Rightarrow> string \<Rightarrow> string" where
  "sha256_hmac key msg = hex (hmac_sha256 (utf8 key) (utf8 msg))"

subsection \<open>Number.prototype.toString\<close>

text \<open>
  The language's conversion of a number to its shortest decimal string, on the decimal
  fractions of the model: an optional sign, the digits of the integer part and, when the
  fraction is not zero, a point and the digits of the fraction (at most twenty of them are
  produced; a double prints at most seventeen significant digits). The exponent notation that
  JavaScript uses from \<open>1e21\<close> on and below \<open>1e-6\<close> is not modelled.
\<close>

fun nat_digits :: "nat \<Rightarrow> string" where
  "nat_digits n = (if n < 10 then [hexdigit n] else nat_digits (n div 10) @ [hexdigit (n mod 10)])"

declare nat_digits.simps [simp del]

fun frac_digits :: "nat \<Rightarrow> real \<Rightarrow> string" where
  "frac_digits fuel f =
     (if fuel = 0 \<or> f = 0 then []
      else hexdigit (nat \<lfloor>f * 10\<rfloor>) # frac_digits (fuel - 1) (f * 10 - of_int \<lfloor>f * 10\<rfloor>))"

declare frac_digits.simps [simp del]

definition toString :: "real \<Rightarrow> string" where
  "toString x =
     (if x < 0 then ''-'' else []) @ nat_digits (nat \<lfloor>\<bar>x\<bar>\<rfloor>)
       @ (if \<bar>x\<bar> = of_int \<lfloor>\<bar>x\<bar>\<rfloor> then []
          else ''.'' @ frac_digits 20 (\<bar>x\<bar> - of_int \<lfloor>\<bar>x\<bar>\<rfloor>))"

subsection \<open>HMAC\<close>

definition HASH_VALUE_LEN :: nat where
  "HASH_VALUE_LEN = 16"

definition HMAC :: "string \<Rightarrow> real \<Rightarrow> real \<Rightarrow> real \<Rightarrow> string" where
  "HMAC key timestamp lat lng =
     (let msg = toString timestamp @ toString lat @ toString lng
      in take HASH_VALUE_LEN (sha256_hmac key msg))"

subsection \<open>hashSpacetime\<close>

text \<open>
  The two loops of the empty square push onto \<open>ret\<close>. They take the hash closure as an
  argument, as the source holds it in the variable \<open>hmac\<close>.
\<close>

function top_bottom_loop ::
  "(real \<Rightarrow> real \<Rightarrow> real \<Rightarrow> 'a) \<Rightarrow> real \<Rightarrow> real \<Rightarrow> real \<Rightarrow> real \<Rightarrow> real \<Rightarrow> int \<Rightarrow> int
    \<Rightarrow> 'a list \<Rightarrow> 'a list" where
  "top_bottom_loop hmac t lat lng lat_step lng_step spread_out lng_i ret =
     (if lng_i \<le> spread_out then
        top_bottom_loop hmac t lat lng lat_step lng_step spread_out (lng_i + 1)
          (ret @ [hmac t (lat - of_int spread_out * lat_step) (lng + of_int lng_i * lng_step),
                  hmac t (lat + of_int spread_out * lat_step) (lng + of_int lng_i * lng_step)])
      else ret)"
  by pat_completeness auto
termination
  by (relation "measure (\<lambda>(hmac, t, lat, lng, lat_step, lng_step, spread_out, lng_i, ret).
                  nat (spread_out + 1 - lng_i))") auto

declare top_bottom_loop.simps [simp del]

function left_right_loop ::
  "(real \<Rightarrow> real \<Rightarrow> real \<Rightarrow> 'a) \<Rightarrow> real \<Rightarrow> real \<Rightarrow> real \<Rightarrow> real \<Rightarrow> real \<Rightarrow> int \<Rightarrow> int
    \<Rightarrow> 'a list \<Rightarrow> 'a list" where
  "left_right_loop hmac t lat lng lat_step lng_step spread_out lat_i ret =
     (if lat_i \<ge> - spread_out + 1 then
        left_right_loop hmac t lat lng lat_step lng_step spread_out (lat_i - 1)
          (ret @ [hmac t (lat + of_int lat_i * lat_step) (lng - of_int spread_out * lng_step),
                  hmac t (lat + of_int lat_i * lat_step) (lng + of_int spread_out * lng_step)])
      else ret)"
  by pat_completeness auto
termination
  by (relation "measure (\<lambda>(hmac, t, lat, lng, lat_step, lng_step, spread_out, lat_i, ret).
                  nat (lat_i + spread_out))") auto

declare left_right_loop.simps [simp del]

text \<open>The body of the loop over the timestamps, and that loop.\<close>

definition square ::
  "(real \<Rightarrow> real \<Rightarrow> real \<Rightarrow> 'a) \<Rightarrow> real \<Rightarrow> real \<Rightarrow> real \<Rightarrow> real \<Rightarrow> real \<Rightarrow> int
    \<Rightarrow> 'a list \<Rightarrow> 'a list" where
  "square hmac t lat lng lat_step lng_step spread_out ret =
     left_right_loop hmac t lat lng lat_step lng_step spread_out (spread_out - 1)
       (top_bottom_loop hmac t lat lng lat_step lng_step spread_out (- spread_out) ret)"

fun time_loop ::
  "(real \<Rightarrow> real \<Rightarrow> real \<Rightarrow> 'a) \<Rightarrow> real \<Rightarrow> real \<Rightarrow> real \<Rightarrow> real \<Rightarrow> int \<Rightarrow> real list
    \<Rightarrow> 'a list \<Rightarrow> 'a list" where
  "time_loop hmac lat lng lat_step lng_step spread_out [] ret = ret"
| "time_loop hmac lat lng lat_step lng_step spread_out (t # ts) ret =
     time_loop hmac lat lng lat_step lng_step spread_out ts
       (square hmac t lat lng lat_step lng_step spread_out ret)"

definition hashSpacetime ::
  "string \<Rightarrow> real \<Rightarrow> real \<Rightarrow> real \<Rightarrow> real \<Rightarrow> real \<Rightarrow> int \<Rightarrow> int \<Rightarrow> string list option" where
  "hashSpacetime key begin end lat lng time_step_in_mins latlng_precision spread_out =
     (let hmac = HMAC key in
      case quantifyLatLng lat lng latlng_precision of
        (lat', lng', lat_step, lng_step) \<Rightarrow>
          (case quantifyDuration begin end time_step_in_mins of
             None \<Rightarrow> None
           | Some ts \<Rightarrow> Some (time_loop hmac lat' lng' lat_step lng_step spread_out ts [])))"

text \<open>
  The coordinate pairs that one timestamp hands to the hash: the loops of the square, run
  with the pairing of the two coordinates in the place of the hash.
\<close>

definition emitted_points :: "real \<Rightarrow> real \<Rightarrow> real \<Rightarrow> real \<Rightarrow> int \<Rightarrow> (real \<times> real) list" where
  "emitted_points lat lng lat_step lng_step spread_out =
     square (\<lambda>t la ln. (la, ln)) 0 lat lng lat_step lng_step spread_out []"

subsection \<open>The sequences of the specification\<close>

text \<open>
  Section 4.1: the multiples of the step from \<open>floor(begin/step)*step\<close> up to
  \<open>ceil(end/step)*step\<close>, both ends included.
\<close>

definition spec_QuantizedTime :: "real \<Rightarrow> real \<Rightarrow> real \<Rightarrow> real list" where
  "spec_QuantizedTime begin end time_step_minutes =
     (let step = time_step_minutes * 60
      in map (\<lambda>k. of_int k * step) [\<lfloor>begin / step\<rfloor> .. \<lceil>end / step\<rceil>])"

text \<open>
  Section 4.3: the top and bottom rows, interleaved, for \<open>lng_i\<close> from \<open>-spread_out\<close>
  to \<open>spread_out\<close>; then the left and right columns for \<open>lat_i\<close> from
  \<open>spread_out - 1\<close> down to \<open>-(spread_out - 1)\<close>.
\<close>

definition spec_Perimeter :: "real \<Rightarrow> real \<Rightarrow> real \<Rightarrow> real \<Rightarrow> int \<Rightarrow> (real \<times> real) list" where
  "spec_Perimeter q_lat q_lng lat_step lng_step spread_out =
     concat (map (\<lambda>lng_i. [(q_lat - of_int spread_out * lat_step, q_lng + of_int lng_i * lng_step),
                           (q_lat + of_int spread_out * lat_step, q_lng + of_int lng_i * lng_step)])
               [- spread_out .. spread_out])
     @ concat (map (\<lambda>lat_i. [(q_lat + of_int lat_i * lat_step, q_lng - of_int spread_out * lng_step),
                             (q_lat + of_int lat_i * lat_step, q_lng + of_int spread_out * lng_step)])
                 (rev [- (spread_out - 1) .. spread_out - 1]))"

text \<open>
  Section 4.5: for each quantized timestamp, ascending, and each point of the perimeter, the
  keyed hash of the timestamp and the point.
\<close>

definition spec_hash ::
  "string \<Rightarrow> real \<Rightarrow> real \<Rightarrow> real \<Rightarrow> real \<Rightarrow> real \<Rightarrow> int \<Rightarrow> int \<Rightarrow> string list" where
  "spec_hash key begin end lat lng time_step_minutes latlng_precision spread_out =
     (case quantifyLatLng lat lng latlng_precision of
        (q_lat, q_lng, lat_step, lng_step) \<Rightarrow>
          concat (map (\<lambda>t. map (\<lambda>(lat', lng'). HMAC key t lat' lng')
                             (spec_Perimeter q_lat q_lng lat_step lng_step spread_out))
                    (spec_QuantizedTime begin end time_step_minutes)))"

section \<open>Properties\<close>

subsection \<open>The loops and the sequences of the specification\<close>

lemma quantifyDuration_loop_pos:
  assumes "0 < step"
  shows "quantifyDuration_loop (of_int k * step) (of_int hi * step) step ret
           = Some (ret @ map (\<lambda>j. of_int j * step) [k..hi])"
proof (induction "nat (hi + 1 - k)" arbitrary: k ret)
  case 0
  then have "hi < k" by simp
  then have "\<not> (of_int k * step \<le> of_int hi * step)"
    using assms by (simp add: mult_le_cancel_right)
  then show ?case using \<open>hi < k\<close>
    by (subst quantifyDuration_loop.simps) simp
next
  case (Suc n)
  then have le: "k \<le> hi" and n: "n = nat (hi + 1 - (k + 1))" by simp_all
  have t: "of_int k * step \<le> of_int hi * step"
    using assms le by (simp add: mult_le_cancel_right)
  have nx: "of_int k * step + step = of_int (k + 1) * step"
    by (simp add: algebra_simps)
  show ?case
    by (subst quantifyDuration_loop.simps)
       (simp add: t nx Suc.hyps(1)[OF n] upto_rec1[OF le] del: of_int_add)
qed



lemma quantifyDuration_pos:
  assumes "0 < time_step_minutes"
  shows "quantifyDuration b e time_step_minutes = Some (spec_QuantizedTime b e time_step_minutes)"
  using assms quantifyDuration_loop_pos[of "time_step_minutes * 60" _ _ "[]"]
  by (simp add: quantifyDuration_def spec_QuantizedTime_def Let_def)


lemma floor_mult_le:
  fixes b step :: real
  assumes "0 < step"
  shows "of_int \<lfloor>b / step\<rfloor> * step \<le> b"
proof -
  have "of_int \<lfloor>b / step\<rfloor> * step \<le> (b / step) * step"
    using assms by (intro mult_right_mono) simp_all
  then show ?thesis using assms by simp
qed






lemma pairs_length: "length (concat (map (\<lambda>j. [f j, g j]) xs)) = 2 * length xs"
  by (induction xs) simp_all

lemma top_bottom_loop_eq:
  "top_bottom_loop hmac t lat lng lat_step lng_step spread_out lng_i ret =
     ret @ concat (map (\<lambda>j. [hmac t (lat - of_int spread_out * lat_step) (lng + of_int j * lng_step),
                               hmac t (lat + of_int spread_out * lat_step) (lng + of_int j * lng_step)])
                     [lng_i .. spread_out])"
proof (induction hmac t lat lng lat_step lng_step spread_out lng_i ret rule: top_bottom_loop.induct)
  case (1 hmac t lat lng lat_step lng_step spread_out lng_i ret)
  show ?case
  proof (cases "lng_i \<le> spread_out")
    case True
    then show ?thesis
      by (subst top_bottom_loop.simps) (simp add: 1 upto_rec1[OF True])
  next
    case False
    then show ?thesis
      by (subst top_bottom_loop.simps) simp
  qed
qed

lemma left_right_loop_eq:
  "left_right_loop hmac t lat lng lat_step lng_step spread_out lat_i ret =
     ret @ concat (map (\<lambda>j. [hmac t (lat + of_int j * lat_step) (lng - of_int spread_out * lng_step),
                               hmac t (lat + of_int j * lat_step) (lng + of_int spread_out * lng_step)])
                     (rev [- spread_out + 1 .. lat_i]))"
proof (induction hmac t lat lng lat_step lng_step spread_out lat_i ret rule: left_right_loop.induct)
  case (1 hmac t lat lng lat_step lng_step spread_out lat_i ret)
  show ?case
  proof (cases "- spread_out + 1 \<le> lat_i")
    case True
    then have split: "[1 - spread_out .. lat_i] = [1 - spread_out .. lat_i - 1] @ [lat_i]"
      by (simp add: upto_rec2)
    from True show ?thesis
      by (subst left_right_loop.simps) (simp add: 1 split)
  next
    case False
    then show ?thesis
      by (subst left_right_loop.simps) simp
  qed
qed

lemma square_eq:
  "square hmac t lat lng lat_step lng_step spread_out ret =
     ret @ map (\<lambda>(lat', lng'). hmac t lat' lng') (spec_Perimeter lat lng lat_step lng_step spread_out)"
  by (simp add: square_def top_bottom_loop_eq left_right_loop_eq spec_Perimeter_def
        map_concat comp_def)

lemma emitted_points_eq:
  "emitted_points lat lng lat_step lng_step spread_out =
     spec_Perimeter lat lng lat_step lng_step spread_out"
  by (simp add: emitted_points_def square_eq)

lemma time_loop_eq:
  "time_loop hmac lat lng lat_step lng_step spread_out ts ret =
     ret @ concat (map (\<lambda>t. map (\<lambda>(lat', lng'). hmac t lat' lng')
                                (spec_Perimeter lat lng lat_step lng_step spread_out)) ts)"
  by (induction ts arbitrary: ret) (simp_all add: square_eq)

lemma spec_Perimeter_length:
  "length (spec_Perimeter lat lng lat_step lng_step spread_out) =
     (if 1 \<le> spread_out then nat (8 * spread_out) else if spread_out = 0 then 2 else 0)"
  by (simp add: spec_Perimeter_def pairs_length) arith

lemma spec_Perimeter_zero:
  "spec_Perimeter lat lng lat_step lng_step 0 = [(lat, lng), (lat, lng)]"
  by (simp add: spec_Perimeter_def upto.simps)

lemma spec_Perimeter_neg:
  "spread_out < 0 \<Longrightarrow> spec_Perimeter lat lng lat_step lng_step spread_out = []"
  by (simp add: spec_Perimeter_def)

lemma hashSpacetime_pos:
  assumes "0 < time_step_minutes"
  shows "hashSpacetime key b e lat lng time_step_minutes latlng_precision spread_out =
           Some (spec_hash key b e lat lng time_step_minutes latlng_precision spread_out)"
  using quantifyDuration_pos[OF assms]
  by (simp add: hashSpacetime_def spec_hash_def time_loop_eq split: prod.splits)

subsection \<open>Distinct points of the perimeter\<close>

lemma set_pairs: "set (concat (map (\<lambda>j. [p j, q j]) xs)) = p ` set xs \<union> q ` set xs"
  by (induction xs) auto

lemma distinct_pairs:
  assumes "distinct xs" and "inj_on p (set xs)" and "inj_on q (set xs)"
    and "\<And>j k. j \<in> set xs \<Longrightarrow> k \<in> set xs \<Longrightarrow> p j \<noteq> q k"
  shows "distinct (concat (map (\<lambda>j. [p j, q j]) xs))"
  using assms
proof (induction xs)
  case Nil
  then show ?case by simp
next
  case (Cons x xs)
  have tail: "distinct (concat (map (\<lambda>j. [p j, q j]) xs))"
    using Cons by (auto simp: inj_on_def)
  have px: "p x \<notin> p ` set xs" "q x \<notin> q ` set xs"
    using Cons.prems(1,2,3) by (auto simp: inj_on_def)
  have cross: "p x \<noteq> q x" "p x \<notin> q ` set xs" "q x \<notin> p ` set xs"
    using Cons.prems(4) by (auto simp: image_iff) metis+
  show ?case using tail px cross by (auto simp: set_pairs)
qed

lemma spec_Perimeter_distinct:
  assumes so: "1 \<le> spread_out" and lat_step: "lat_step \<noteq> 0" and lng_step: "lng_step \<noteq> 0"
  shows "distinct (spec_Perimeter lat lng lat_step lng_step spread_out)"
proof -
  let ?top = "\<lambda>j. (lat - of_int spread_out * lat_step, lng + of_int j * lng_step)"
  let ?bot = "\<lambda>j. (lat + of_int spread_out * lat_step, lng + of_int j * lng_step)"
  let ?left = "\<lambda>j. (lat + of_int j * lat_step, lng - of_int spread_out * lng_step)"
  let ?right = "\<lambda>j. (lat + of_int j * lat_step, lng + of_int spread_out * lng_step)"
  let ?rows = "concat (map (\<lambda>j. [?top j, ?bot j]) [- spread_out .. spread_out])"
  let ?cols = "concat (map (\<lambda>j. [?left j, ?right j]) (rev [- (spread_out - 1) .. spread_out - 1]))"
  have so_lat: "of_int spread_out * lat_step \<noteq> 0" and so_lng: "of_int spread_out * lng_step \<noteq> 0"
    using so lat_step lng_step by simp_all
  have rows: "distinct ?rows"
  proof (rule distinct_pairs)
    show "distinct [- spread_out .. spread_out]" by simp
    show "inj_on ?top (set [- spread_out .. spread_out])" using lng_step by (simp add: inj_on_def)
    show "inj_on ?bot (set [- spread_out .. spread_out])" using lng_step by (simp add: inj_on_def)
    show "?top j \<noteq> ?bot k" for j k using so_lat by simp
  qed
  have cols: "distinct ?cols"
  proof (rule distinct_pairs)
    show "distinct (rev [- (spread_out - 1) .. spread_out - 1])" by simp
    show "inj_on ?left (set (rev [- (spread_out - 1) .. spread_out - 1]))"
      using lat_step by (simp add: inj_on_def)
    show "inj_on ?right (set (rev [- (spread_out - 1) .. spread_out - 1]))"
      using lat_step by (simp add: inj_on_def)
    show "?left j \<noteq> ?right k" for j k using so_lng by simp
  qed
  have apart: "set ?rows \<inter> set ?cols = {}"
  proof -
    have "fst c \<noteq> fst r" if r: "r \<in> set ?rows" and c: "c \<in> set ?cols" for r c
    proof -
      from r have "fst r = lat + of_int (- spread_out) * lat_step \<or> fst r = lat + of_int spread_out * lat_step"
        by (auto simp: set_pairs)
      moreover from c obtain j where j: "- (spread_out - 1) \<le> j" "j \<le> spread_out - 1"
        and fc: "fst c = lat + of_int j * lat_step"
        by (auto simp: set_pairs)
      moreover have "of_int j * lat_step \<noteq> of_int (- spread_out) * lat_step"
        "of_int j * lat_step \<noteq> of_int spread_out * lat_step"
        using j lat_step by (simp_all del: of_int_minus)
      ultimately show ?thesis by auto
    qed
    then show ?thesis by blast
  qed
  show ?thesis using rows cols apart by (simp add: spec_Perimeter_def)
qed

subsection \<open>Truncation of the coordinates\<close>

lemma step_pos: "0 < (10::real) powi p"
  by simp

lemma shuffleFloat_abs:
  "\<bar>shuffleFloat f (p - 1)\<bar> = of_int \<lfloor>\<bar>f\<bar> / 10 powi p\<rfloor> * 10 powi p"
proof (cases "f = 0")
  case True
  then show ?thesis by (simp add: shuffleFloat_def)
next
  case False
  have "0 \<le> \<bar>f\<bar> / 10 powi p" using step_pos[of p] by simp
  then have "0 \<le> \<lfloor>\<bar>f\<bar> / 10 powi p\<rfloor>" by simp
  then have "(0::real) \<le> of_int \<lfloor>\<bar>f\<bar> / 10 powi p\<rfloor> * 10 powi p"
    using step_pos[of p] by simp
  then show ?thesis using False
    by (simp add: shuffleFloat_def abs_mult abs_sgn_eq)
qed

lemma shuffleFloat_multiple:
  "\<exists>k. shuffleFloat f (p - 1) = of_int k * 10 powi p"
proof -
  have "shuffleFloat f (p - 1)
          = of_int ((if f < 0 then - 1 else if f = 0 then 0 else 1) * \<lfloor>\<bar>f\<bar> / 10 powi p\<rfloor>)
              * 10 powi p"
    by (simp add: shuffleFloat_def sgn_real_def)
  then show ?thesis by blast
qed

lemma shuffleFloat_le: "\<bar>shuffleFloat f (p - 1)\<bar> \<le> \<bar>f\<bar>"
  unfolding shuffleFloat_abs by (rule floor_mult_le[OF step_pos])

lemma shuffleFloat_gt: "\<bar>f\<bar> < \<bar>shuffleFloat f (p - 1)\<bar> + 10 powi p"
proof -
  have "\<bar>f\<bar> / 10 powi p < of_int \<lfloor>\<bar>f\<bar> / 10 powi p\<rfloor> + 1" by linarith
  then have "\<bar>f\<bar> < (of_int \<lfloor>\<bar>f\<bar> / 10 powi p\<rfloor> + 1) * 10 powi p"
    using pos_divide_less_eq[OF step_pos, of "\<bar>f\<bar>" p "of_int \<lfloor>\<bar>f\<bar> / 10 powi p\<rfloor> + 1"]
    by blast
  then show ?thesis unfolding shuffleFloat_abs by (simp add: algebra_simps)
qed

lemma shuffleFloat_sign: "0 \<le> shuffleFloat f (p - 1) * f"
proof -
  have "0 \<le> \<bar>f\<bar> / 10 powi p" using step_pos[of p] by simp
  then have "0 \<le> \<lfloor>\<bar>f\<bar> / 10 powi p\<rfloor>" by simp
  then have "(0::real) \<le> of_int \<lfloor>\<bar>f\<bar> / 10 powi p\<rfloor> * 10 powi p"
    using step_pos[of p] by simp
  then show ?thesis
    by (simp add: shuffleFloat_def sgn_real_def zero_le_mult_iff mult_le_0_iff)
qed

lemma shuffleFloat_idem: "shuffleFloat (shuffleFloat f (p - 1)) (p - 1) = shuffleFloat f (p - 1)"
proof -
  define n where "n = \<lfloor>\<bar>f\<bar> / 10 powi p\<rfloor>"
  have "0 \<le> \<bar>f\<bar> / 10 powi p" using step_pos[of p] by simp
  then have n: "0 \<le> n" by (simp add: n_def)
  have q: "shuffleFloat f (p - 1) = sgn f * (of_int n * 10 powi p)"
    by (simp add: shuffleFloat_def n_def)
  have "\<bar>shuffleFloat f (p - 1)\<bar> / 10 powi p = of_int n"
    using step_pos[of p] by (simp add: shuffleFloat_abs n_def)
  then have again: "shuffleFloat (shuffleFloat f (p - 1)) (p - 1)
                      = sgn (shuffleFloat f (p - 1)) * (of_int n * 10 powi p)"
    by (simp add: shuffleFloat_def[of "shuffleFloat f (p - 1)"])
  show ?thesis
  proof (cases "n = 0")
    case True
    then show ?thesis using q again by simp
  next
    case False
    with n have "(0::real) < of_int n * 10 powi p" using step_pos[of p] by simp
    then have "sgn (of_int n * 10 powi p :: real) = 1" by (rule sgn_pos)
    then have "sgn (shuffleFloat f (p - 1)) = sgn f"
      unfolding q by (simp only: sgn_mult sgn_sgn mult_1_right)
    then show ?thesis using q again by simp
  qed
qed

subsection \<open>Quantization, the square and the token sequence\<close>







text \<open>
  C3. For \<open>spread_out \<ge> 1\<close> the loops of the square emit exactly \<open>8 * spread_out\<close>
  points for a timestamp (and push as many hashes); for \<open>spread_out = 0\<close> they emit
  exactly two points, both the center: the rows coincide and the loop of the columns is empty.
\<close>
theorem perimeter_count:
  "(1 \<le> spread_out \<longrightarrow>
      length (emitted_points lat lng lat_step lng_step spread_out) = nat (8 * spread_out)
      \<and> length (square hmac t lat lng lat_step lng_step spread_out ret)
          = length ret + nat (8 * spread_out))
   \<and> emitted_points lat lng lat_step lng_step 0 = [(lat, lng), (lat, lng)]
   \<and> square hmac t lat lng lat_step lng_step 0 ret = ret @ [hmac t lat lng, hmac t lat lng]"
  by (simp add: emitted_points_eq square_eq spec_Perimeter_length spec_Perimeter_zero)

theorem perimeter_count_witness:
  "(1::int) \<le> 2 \<and> length (emitted_points 25.123 122.123 0.001 0.001 2) = 16
   \<and> length (square (HMAC ''abc'') 600 25.123 122.123 0.001 0.001 2 []) = 16"
  using perimeter_count[of 2 "25.123" "122.123" "0.001" "0.001" "HMAC ''abc''" 600 "[]"]
  by simp

text \<open>
  C9. For every \<open>spread_out < 0\<close> (any key, any time range with a positive step, any
  coordinates) \<open>hashSpacetime\<close> returns the empty sequence: both loops of the square
  have empty ranges, nothing is hashed and nothing is raised.
\<close>
theorem hashSpacetime_negative_spread:
  assumes "spread_out < 0" and "0 < time_step_minutes"
  shows "hashSpacetime key begin end lat lng time_step_minutes latlng_precision spread_out = Some []"
  using hashSpacetime_pos[OF assms(2)] assms(1)
  by (simp add: spec_hash_def spec_Perimeter_neg split: prod.splits)

theorem hashSpacetime_negative_spread_witness:
  "(- 1::int) < 0 \<and> (0::real) < 10
   \<and> hashSpacetime ''abc'' 100 700 25.123456 122.123 10 (- 3) (- 1) = Some []"
  using hashSpacetime_negative_spread[of "- 1" 10 "''abc''" 100 700 "25.123456" "122.123" "- 3"]
  by simp

text \<open>
  C10. For \<open>spread_out \<ge> 1\<close> and steps that are not zero, the \<open>8 * spread_out\<close>
  coordinate pairs emitted for one timestamp are pairwise distinct, in exact arithmetic.
\<close>
theorem perimeter_distinct:
  assumes "1 \<le> spread_out" and "lat_step \<noteq> 0" and "lng_step \<noteq> 0"
  shows "distinct (emitted_points lat lng lat_step lng_step spread_out)"
  using spec_Perimeter_distinct[OF assms] by (simp add: emitted_points_eq)

theorem perimeter_distinct_witness:
  "(1::int) \<le> 1 \<and> (0.001::real) \<noteq> 0
   \<and> distinct (emitted_points 25.123 122.123 0.001 0.001 1)"
  using perimeter_distinct[of 1 "0.001" "0.001" "25.123" "122.123"] by simp







text \<open>
  C5. \<open>quantifyLatLng\<close> returns \<open>(q_lat, q_lng, lat_step, lng_step)\<close> with both steps
  \<open>10^precision\<close> and each coordinate truncated, not rounded, at the digit position of the
  precision: the result is a multiple of the step, of the sign of the coordinate, not larger
  in magnitude and less than one step away. In particular
  \<open>quantifyLatLng(25.123456, 122.123456, -3) = (25.123, 122.123, 0.001, 0.001)\<close>.
\<close>
theorem quantifyLatLng_truncates:
  "(case quantifyLatLng lat lng latlng_precision of
      (q_lat, q_lng, lat_step, lng_step) \<Rightarrow>
        lat_step = 10 powi latlng_precision \<and> lng_step = 10 powi latlng_precision
        \<and> (\<exists>k. q_lat = of_int k * 10 powi latlng_precision)
        \<and> \<bar>q_lat\<bar> \<le> \<bar>lat\<bar> \<and> \<bar>lat\<bar> < \<bar>q_lat\<bar> + 10 powi latlng_precision \<and> 0 \<le> q_lat * lat
        \<and> (\<exists>k. q_lng = of_int k * 10 powi latlng_precision)
        \<and> \<bar>q_lng\<bar> \<le> \<bar>lng\<bar> \<and> \<bar>lng\<bar> < \<bar>q_lng\<bar> + 10 powi latlng_precision \<and> 0 \<le> q_lng * lng)
   \<and> quantifyLatLng 25.123456 122.123456 (- 3) = (25.123, 122.123, 0.001, 0.001)"
proof -
  have "quantifyLatLng 25.123456 122.123456 (- 3) = (25.123, 122.123, 0.001, 0.001)"
    by (simp add: quantifyLatLng_def shuffleFloat_def power_int_minus)
  then show ?thesis
    using shuffleFloat_multiple[of lat latlng_precision] shuffleFloat_multiple[of lng latlng_precision]
    by (simp add: quantifyLatLng_def shuffleFloat_le shuffleFloat_gt shuffleFloat_sign)
qed

text \<open>
  C8. \<open>quantifyLatLng\<close> is idempotent: applied at the same precision to the quantized
  coordinates it returned, it returns them again, with the same steps.
\<close>
theorem quantifyLatLng_idempotent:
  "(case quantifyLatLng lat lng latlng_precision of
      (q_lat, q_lng, lat_step, lng_step) \<Rightarrow>
        quantifyLatLng q_lat q_lng latlng_precision = (q_lat, q_lng, lat_step, lng_step))"
  by (simp add: quantifyLatLng_def shuffleFloat_idem)

subsection \<open>The keyed hash: length, digits and the reference token\<close>

























end
